theory Spec2Isabelle
  imports Main
begin

section \<open>JavaScript primitives used by the component\<close>

text \<open>
  Strings are lists of code units. \<open>lastIndexOf\<close> is \<open>String.prototype.lastIndexOf\<close> for a
  one-character search string: the index of the last occurrence, or \<open>-1\<close> when there is none.
\<close>

primrec lastIndexOf :: "string \<Rightarrow> char \<Rightarrow> int" where
  "lastIndexOf [] c = - 1"
| "lastIndexOf (x # xs) c =
     (let r = lastIndexOf xs c
      in if 0 \<le> r then r + 1 else if x = c then 0 else - 1)"

text \<open>
  \<open>String.prototype.slice(start, end)\<close>: a negative index counts from the end of the string,
  both indices are clamped to the string, and an empty string results when the start is not
  before the end.
\<close>

definition js_slice :: "string \<Rightarrow> int \<Rightarrow> int \<Rightarrow> string" where
  "js_slice s start end' =
     (let len = int (length s);
          from = (if start < 0 then max (len + start) 0 else min start len);
          to = (if end' < 0 then max (len + end') 0 else min end' len)
      in take (nat (max (to - from) 0)) (drop (nat from) s))"

text \<open>
  \<open>String.prototype.substring(start, end)\<close>: negative indices are taken as 0, both are
  clamped to the length, and they are swapped when the start is greater than the end.
\<close>

definition js_substring :: "string \<Rightarrow> int \<Rightarrow> int \<Rightarrow> string" where
  "js_substring s start end' =
     (let len = int (length s);
          finalStart = min (max start 0) len;
          finalEnd = min (max end' 0) len;
          from = min finalStart finalEnd;
          to = max finalStart finalEnd
      in take (nat (to - from)) (drop (nat from) s))"

text \<open>
  Numbers are the integers (the component's \<open>w\<close> and \<open>h\<close> are pixel counts); a template
  literal prints an integer in decimal, with a minus sign when negative (JavaScript does so
  for every integer below \<open>10^21\<close> in magnitude; fractions and \<open>NaN\<close> are outside this model).
\<close>

definition digit :: "nat \<Rightarrow> char" where
  "digit n = ''0123456789'' ! n"

function nat_toString :: "nat \<Rightarrow> string" where
  "nat_toString n =
     (if n < 10 then [digit n] else nat_toString (n div 10) @ [digit (n mod 10)])"
  by pat_completeness auto
termination
  by (relation "measure (\<lambda>n. n)") auto

declare nat_toString.simps [simp del]

definition toString :: "int \<Rightarrow> string" where
  "toString i = (if i < 0 then CHR ''-'' # nat_toString (nat (- i)) else nat_toString (nat i))"

text \<open>\<open>Array.prototype.join\<close>: the separator goes before every element but the first.\<close>

fun join_from :: "string \<Rightarrow> string \<Rightarrow> string list \<Rightarrow> string" where
  "join_from sep R [] = R"
| "join_from sep R (x # xs) = join_from sep (R @ sep @ x) xs"

definition js_join :: "string list \<Rightarrow> string \<Rightarrow> string" where
  "js_join xs sep = (case xs of [] \<Rightarrow> [] | x # rest \<Rightarrow> join_from sep x rest)"

text \<open>
  \<open>[...new Set(urls)]\<close>: a \<open>Set\<close> keeps its elements in insertion order and \<open>add\<close> ignores
  a value that is already present.
\<close>

definition Set_add :: "'a list \<Rightarrow> 'a \<Rightarrow> 'a list" where
  "Set_add s x = (if x \<in> set s then s else s @ [x])"

definition new_Set :: "'a list \<Rightarrow> 'a list" where
  "new_Set xs = foldl Set_add [] xs"

section \<open>helpers/image\<close>

text \<open>
  \<open>makeResizedImageUrl({ src, w, h, dens, ext })\<close>. A property missing from the argument
  object is \<open>None\<close>; a number is truthy when it is not 0, a string when it is not empty.
\<close>

definition makeResizedImageUrl ::
  "string \<Rightarrow> int option \<Rightarrow> int option \<Rightarrow> int option \<Rightarrow> string option \<Rightarrow> string" where
  "makeResizedImageUrl src w h dens ext =
     (let indexOfLastDot = lastIndexOf src CHR ''.'';
          baseUrl = js_slice src 0 indexOfLastDot;
          sizes = (case (w, h) of
                     (Some wv, Some hv) \<Rightarrow>
                       if wv \<noteq> 0 \<and> hv \<noteq> 0 then ''__'' @ toString wv @ ''x'' @ toString hv else []
                   | _ \<Rightarrow> []);
          extension = (case ext of
                         Some e \<Rightarrow>
                           if e \<noteq> [] then ''.'' @ e
                           else js_slice src indexOfLastDot (int (length src))
                       | None \<Rightarrow> js_slice src indexOfLastDot (int (length src)));
          densityString = (case dens of
                             Some d \<Rightarrow> if d \<noteq> 0 then '' '' @ toString d @ ''x'' else []
                           | None \<Rightarrow> [])
      in baseUrl @ sizes @ extension @ densityString)"

text \<open>An element of the \<open>sizes\<close> arrays: \<open>{w, h, dens?, ext?}\<close>, every property optional.\<close>

record size_variant =
  size_w :: "int option"
  size_h :: "int option"
  size_dens :: "int option"
  size_ext :: "string option"

definition makeResizedSrcSet :: "string \<Rightarrow> size_variant list \<Rightarrow> string" where
  "makeResizedSrcSet src sizes =
     js_join
       (map (\<lambda>size. makeResizedImageUrl src (size_w size) (size_h size) (size_dens size)
                      (size_ext size))
          sizes)
       '', ''"

section \<open>NuxtImageFallback.vue\<close>

text \<open>
  The props of the component. Vue fills in the defaults (\<open>w = 0\<close>, \<open>h = 0\<close>,
  \<open>ext = 'webp'\<close>, \<open>sizes = []\<close>, \<open>loading = 'lazy'\<close>) before the script reads them.
  An element of \<open>sizes\<close> is read through \<open>size.w\<close>, \<open>size.h\<close> and \<open>size.ext\<close> only.
\<close>

record props =
  prop_alt :: string
  prop_src :: string
  prop_w :: int
  prop_h :: int
  prop_ext :: string
  prop_sizes :: "size_variant list"
  prop_loading :: string

definition srcWithExt :: "props \<Rightarrow> string" where
  "srcWithExt p =
     (let indexOfLastDot = lastIndexOf (prop_src p) CHR ''.'';
          baseUrl = js_slice (prop_src p) 0 indexOfLastDot;
          extension = (if prop_ext p \<noteq> [] then ''.'' @ prop_ext p
                       else js_slice (prop_src p) indexOfLastDot (int (length (prop_src p))))
      in baseUrl @ extension)"

text \<open>\<open>a || b\<close> on an optional number and on an optional string.\<close>

definition or_num :: "int option \<Rightarrow> int \<Rightarrow> int" where
  "or_num a b = (case a of Some n \<Rightarrow> if n \<noteq> 0 then n else b | None \<Rightarrow> b)"

definition or_str :: "string option \<Rightarrow> string \<Rightarrow> string" where
  "or_str a b = (case a of Some s \<Rightarrow> if s \<noteq> [] then s else b | None \<Rightarrow> b)"

text \<open>The body of the \<open>forEach\<close> callback of \<open>fallbackUrls\<close>: the URL pushed for one
  element \<open>sz\<close> of \<open>sizes\<close>.\<close>

definition sizeUrl :: "props \<Rightarrow> size_variant \<Rightarrow> string" where
  "sizeUrl p sz =
     (let extToUse = or_str (size_ext sz) (if prop_ext p \<noteq> [] then prop_ext p else ''webp'');
          baseUrl = js_substring (prop_src p) 0 (lastIndexOf (prop_src p) CHR ''.'');
          urlWithExt = baseUrl @ ''.'' @ extToUse
      in makeResizedImageUrl urlWithExt
           (Some (or_num (size_w sz) (prop_w p)))
           (Some (or_num (size_h sz) (prop_h p)))
           None None)"

definition fallbackUrls :: "props \<Rightarrow> string list" where
  "fallbackUrls p =
     (let urls = [];
          urls = urls @ [makeResizedImageUrl (srcWithExt p) (Some (prop_w p)) (Some (prop_h p))
                           None None];
          urls = (if length (prop_sizes p) > 0
                  then foldl (\<lambda>urls size. urls @ [sizeUrl p size]) urls (prop_sizes p)
                  else urls);
          urls = urls @ [srcWithExt p]
      in new_Set urls)"

text \<open>
  The reactive state of one component instance, with the console as the list of the signals
  written so far.
\<close>

datatype signal = Warn string | Error "string list" | Info string

record state =
  currentIndex :: nat
  imageKey :: nat
  currentSrc :: string
  urlCache :: "string \<rightharpoonup> bool"
  console :: "signal list"

definition fresh_state :: state where
  "fresh_state =
     \<lparr>currentIndex = 0, imageKey = 0, currentSrc = [], urlCache = Map.empty, console = []\<rparr>"

text \<open>\<open>fallbackUrls.value[0] || ''\<close>: a missing element and an empty string both give \<open>''\<close>.\<close>

definition initializeImage :: "props \<Rightarrow> state \<Rightarrow> state" where
  "initializeImage p s =
     s\<lparr>currentIndex := 0,
       currentSrc := (case fallbackUrls p of [] \<Rightarrow> [] | u # _ \<Rightarrow> if u \<noteq> [] then u else []),
       imageKey := imageKey s + 1\<rparr>"

text \<open>The skip test of \<open>handleError\<close>: \<open>urlCache.has(nextUrl) && !urlCache.get(nextUrl)\<close>.\<close>

definition known_bad :: "(string \<rightharpoonup> bool) \<Rightarrow> string \<Rightarrow> bool" where
  "known_bad cache url = (case cache url of Some v \<Rightarrow> \<not> v | None \<Rightarrow> False)"

function handleError :: "props \<Rightarrow> state \<Rightarrow> state" where
  "handleError p s =
     (let failedUrl = currentSrc s;
          s = s\<lparr>urlCache := (urlCache s)(failedUrl \<mapsto> False)\<rparr>;
          s = s\<lparr>console := console s @ [Warn failedUrl]\<rparr>;
          s = s\<lparr>currentIndex := currentIndex s + 1\<rparr>
      in if currentIndex s \<ge> length (fallbackUrls p)
         then s\<lparr>console := console s @ [Error (fallbackUrls p)]\<rparr>
         else
           let nextUrl = fallbackUrls p ! currentIndex s
           in if known_bad (urlCache s) nextUrl
              then handleError p s
              else
                let s = s\<lparr>currentSrc := nextUrl\<rparr>;
                    s = s\<lparr>imageKey := imageKey s + 1\<rparr>
                in s\<lparr>console := console s @ [Info nextUrl]\<rparr>)"
  by pat_completeness auto
termination
  by (relation "measure (\<lambda>(p, s). length (fallbackUrls p) - currentIndex s)") auto

declare handleError.simps [simp del]

text \<open>
  The watcher on \<open>src\<close>, \<open>ext\<close>, \<open>w\<close> and \<open>h\<close>: \<open>initializeImage\<close> runs when the component is
  created (\<open>immediate\<close>) and whenever one of the four watched props changes.
\<close>

definition watched :: "props \<Rightarrow> string \<times> string \<times> int \<times> int" where
  "watched p = (prop_src p, prop_ext p, prop_w p, prop_h p)"

definition mounted :: "props \<Rightarrow> state" where
  "mounted p = initializeImage p fresh_state"

definition update_props :: "props \<Rightarrow> props \<Rightarrow> state \<Rightarrow> state" where
  "update_props old new s = (if watched new \<noteq> watched old then initializeImage new s else s)"

text \<open>
  What happens to a component instance after its creation. The parent replaces the props:
  the watcher compares the four watched props and runs \<open>initializeImage\<close> only when one of
  them differs, so a change of \<open>sizes\<close>, \<open>alt\<close> or \<open>loading\<close> alone replaces the props (and
  with \<open>sizes\<close> the computed \<open>fallbackUrls\<close>) and leaves the state as it is. Or the image
  reports a load failure and \<open>handleError\<close> runs. Nothing else calls \<open>initializeImage\<close>.
\<close>

datatype event = PropsChange props | LoadFailure

fun step :: "props \<times> state \<Rightarrow> event \<Rightarrow> props \<times> state" where
  "step (p, s) (PropsChange p') = (p', update_props p p' s)"
| "step (p, s) LoadFailure = (p, handleError p s)"

definition run :: "props \<Rightarrow> event list \<Rightarrow> props \<times> state" where
  "run p evs = foldl step (p, mounted p) evs"

text \<open>
  A sequence of events in which no load failure is reported while the cursor is already at or
  past the end of the candidate list, and in which every change of props that does not touch
  a watched prop (so that \<open>initializeImage\<close> does not run) leaves the candidate list as it
  was.
\<close>

fun well_driven :: "props \<times> state \<Rightarrow> event list \<Rightarrow> bool" where
  "well_driven c [] = True"
| "well_driven (p, s) (PropsChange p' # evs) =
     ((watched p' \<noteq> watched p \<or> fallbackUrls p' = fallbackUrls p) \<and>
      well_driven (step (p, s) (PropsChange p')) evs)"
| "well_driven (p, s) (LoadFailure # evs) =
     (currentIndex s < length (fallbackUrls p) \<and>
      well_driven (step (p, s) LoadFailure) evs)"

text \<open>The signals a call has written: what the console holds beyond what it held before.\<close>

definition emitted :: "state \<Rightarrow> state \<Rightarrow> signal list" where
  "emitted s s' = drop (length (console s)) (console s')"


section \<open>The specification's reading\<close>

text \<open>
  Removing duplicates and keeping the first occurrence, as the data model words it.
\<close>

fun keep_first :: "'a list \<Rightarrow> 'a list" where
  "keep_first [] = []"
| "keep_first (x # xs) = x # keep_first (filter (\<lambda>y. y \<noteq> x) xs)"

text \<open>Joining with \<open>", "\<close>, as the URL builder's contract words it.\<close>

fun joined :: "string list \<Rightarrow> string" where
  "joined [] = []"
| "joined [x] = x"
| "joined (x # y # zs) = x @ '', '' @ joined (y # zs)"

text \<open>
  \<open>buildResizedUrl\<close> as the contract words it: the extension is \<open>.ext\<close> when \<open>ext\<close> is
  provided, the density suffix is written when \<open>dens\<close> is provided, and a source without a dot
  is its own base with nothing as its original extension.
\<close>

definition buildResizedUrl ::
  "string \<Rightarrow> int option \<Rightarrow> int option \<Rightarrow> string option \<Rightarrow> int option \<Rightarrow> string" where
  "buildResizedUrl src w h ext dens =
     (let dotted = CHR ''.'' \<in> set src;
          base = (if dotted then rev (tl (dropWhile (\<lambda>c. c \<noteq> CHR ''.'') (rev src))) else src);
          originalExt = (if dotted then CHR ''.'' # rev (takeWhile (\<lambda>c. c \<noteq> CHR ''.'') (rev src))
                         else []);
          sizeTag = (case (w, h) of
                       (Some wv, Some hv) \<Rightarrow>
                         if wv \<noteq> 0 \<and> hv \<noteq> 0 then ''__'' @ toString wv @ ''x'' @ toString hv
                         else []
                     | _ \<Rightarrow> []);
          extension = (case ext of Some e \<Rightarrow> ''.'' @ e | None \<Rightarrow> originalExt);
          densitySuffix = (case dens of Some d \<Rightarrow> '' '' @ toString d @ ''x'' | None \<Rightarrow> [])
      in base @ sizeTag @ extension @ densitySuffix)"

text \<open>
  The request of the specification's example:
  \<open>{src: "/img/photo.jpg", w: 100, h: 50, ext: "webp", sizes: []}\<close>.
\<close>

definition photo :: props where
  "photo =
     \<lparr>prop_alt = [], prop_src = ''/img/photo.jpg'', prop_w = 100, prop_h = 50,
      prop_ext = ''webp'', prop_sizes = [], prop_loading = ''lazy''\<rparr>"

text \<open>
  The same request with one size variant, \<open>sizes: [{w: 10, ext: "avif"}]\<close>, and the state of a
  controller for it after two load failures and a second \<open>initializeImage\<close>: the cursor is
  back at 0 and the cache still knows the first two candidates as bad.
\<close>

definition photo_avif :: props where
  "photo_avif =
     photo\<lparr>prop_sizes :=
       [\<lparr>size_w = Some 10, size_h = None, size_dens = None, size_ext = Some ''avif''\<rparr>]\<rparr>"

definition revisited :: state where
  "revisited =
     initializeImage photo_avif (handleError photo_avif (handleError photo_avif (mounted photo_avif)))"

section \<open>The failure handler in closed form\<close>

text \<open>
  One call of \<open>handleError\<close> records the failed URL, passes over the known-bad candidates
  that follow the cursor and stops at the first candidate that is not known bad, or at the
  end of the list.
\<close>

definition outcome :: "props \<Rightarrow> state \<Rightarrow> state" where
  "outcome p s =
     (let failedUrl = currentSrc s;
          cache = (urlCache s)(failedUrl \<mapsto> False);
          rest = drop (currentIndex s + 1) (fallbackUrls p);
          k = length (takeWhile (known_bad cache) rest);
          s' = s\<lparr>urlCache := cache, currentIndex := currentIndex s + 1 + k\<rparr>
      in case dropWhile (known_bad cache) rest of
           [] \<Rightarrow> s'\<lparr>console := console s @ replicate (k + 1) (Warn failedUrl)
                                    @ [Error (fallbackUrls p)]\<rparr>
         | u # _ \<Rightarrow> s'\<lparr>currentSrc := u, imageKey := imageKey s + 1,
                        console := console s @ replicate (k + 1) (Warn failedUrl) @ [Info u]\<rparr>)"

section \<open>Strings, sets and joins\<close>

lemma lastIndexOf_none: "c \<notin> set s \<Longrightarrow> lastIndexOf s c = - 1"
  by (induction s) auto

lemma lastIndexOf_split:
  "c \<notin> set e0 \<Longrightarrow> lastIndexOf (b @ c # e0) c = int (length b)"
  by (induction b) (auto simp: lastIndexOf_none Let_def)

lemma js_slice_prefix: "js_slice (b @ t) 0 (int (length b)) = b"
  by (simp add: js_slice_def Let_def)

lemma js_slice_suffix: "js_slice (b @ t) (int (length b)) (int (length (b @ t))) = t"
  by (simp add: js_slice_def Let_def)

lemma js_substring_prefix: "js_substring (b @ t) 0 (int (length b)) = b"
  by (simp add: js_substring_def Let_def)

lemma split_last_dot:
  assumes "src = base @ CHR ''.'' # originalExt" "CHR ''.'' \<notin> set originalExt"
  shows "lastIndexOf src CHR ''.'' = int (length base)"
    and "js_slice src 0 (int (length base)) = base"
    and "js_slice src (int (length base)) (int (length src)) = CHR ''.'' # originalExt"
    and "js_substring src 0 (int (length base)) = base"
  using assms js_slice_suffix [of base "CHR ''.'' # originalExt"]
  by (simp_all add: lastIndexOf_split js_slice_prefix js_substring_prefix)



lemma foldl_Set_add:
  "foldl Set_add acc xs = acc @ keep_first (filter (\<lambda>y. y \<notin> set acc) xs)"
proof (induction xs arbitrary: acc)
  case Nil
  then show ?case by simp
next
  case (Cons x xs)
  show ?case
  proof (cases "x \<in> set acc")
    case True
    then have "Set_add acc x = acc" by (simp add: Set_add_def)
    with True show ?thesis by (simp add: Cons.IH)
  next
    case False
    then have add: "Set_add acc x = acc @ [x]" by (simp add: Set_add_def)
    have "filter (\<lambda>y. y \<notin> set (acc @ [x])) xs = filter (\<lambda>y. y \<noteq> x) (filter (\<lambda>y. y \<notin> set acc) xs)"
      by (auto intro: filter_cong)
    with False add show ?thesis by (simp add: Cons.IH)
  qed
qed

lemma new_Set_keep_first: "new_Set xs = keep_first xs"
  by (simp add: new_Set_def foldl_Set_add)

lemma foldl_push: "foldl (\<lambda>urls x. urls @ [f x]) acc xs = acc @ map f xs"
  by (induction xs arbitrary: acc) auto

lemma join_from_concat: "join_from sep R xs = R @ concat (map (\<lambda>x. sep @ x) xs)"
  by (induction xs arbitrary: R) auto

lemma joined_concat: "joined (x # xs) = x @ concat (map (\<lambda>y. '', '' @ y) xs)"
  by (induction xs arbitrary: x) auto

lemma js_join_joined: "js_join xs '', '' = joined xs"
  by (cases xs) (simp_all add: js_join_def join_from_concat joined_concat)

section \<open>The URL builder\<close>

lemma makeResizedImageUrl_split:
  assumes "src = base @ CHR ''.'' # originalExt" "CHR ''.'' \<notin> set originalExt"
  shows "makeResizedImageUrl src w h dens ext =
           base
           @ (case (w, h) of
                (Some wv, Some hv) \<Rightarrow>
                  if wv \<noteq> 0 \<and> hv \<noteq> 0 then ''__'' @ toString wv @ ''x'' @ toString hv else []
              | _ \<Rightarrow> [])
           @ (case ext of
                Some e \<Rightarrow> if e \<noteq> [] then CHR ''.'' # e else CHR ''.'' # originalExt
              | None \<Rightarrow> CHR ''.'' # originalExt)
           @ (case dens of
                Some d \<Rightarrow> if d \<noteq> 0 then '' '' @ toString d @ ''x'' else []
              | None \<Rightarrow> [])"
  unfolding makeResizedImageUrl_def Let_def split_last_dot [OF assms]
  by (simp split: option.splits)

lemma buildResizedUrl_agrees:
  assumes "CHR ''.'' \<in> set src" "ext \<noteq> Some []" "dens \<noteq> Some 0"
  shows "makeResizedImageUrl src w h dens ext = buildResizedUrl src w h ext dens"
proof -
  from assms(1) obtain base originalExt
    where split: "src = base @ CHR ''.'' # originalExt" "CHR ''.'' \<notin> set originalExt"
    using split_list_last by fastforce
  have r: "rev src = rev originalExt @ CHR ''.'' # rev base"
    using split(1) by simp
  have d: "dropWhile (\<lambda>c. c \<noteq> CHR ''.'') (rev src) = CHR ''.'' # rev base"
    unfolding r using split(2) by (subst dropWhile_append2) auto
  have t: "takeWhile (\<lambda>c. c \<noteq> CHR ''.'') (rev src) = rev originalExt"
    unfolding r using split(2) by (subst takeWhile_append2) auto
  show ?thesis
    unfolding makeResizedImageUrl_split [OF split] buildResizedUrl_def Let_def d t
    using assms by (simp split: option.splits)
qed

text \<open>
  C5, as amended. For a source with a dot, \<open>makeResizedImageUrl\<close> returns the base (the source
  up to its last dot), the size tag \<open>__WxH\<close> when \<open>w\<close> and \<open>h\<close> are both truthy, the
  extension \<open>.ext\<close> when \<open>ext\<close> is provided and not empty and the original extension with
  its dot otherwise, and the density suffix when \<open>dens\<close> is provided and not 0. The function
  is total: it returns a string for every argument.
\<close>

theorem makeResizedImageUrl_parts:
  assumes "CHR ''.'' \<in> set src"
  shows "\<exists>base originalExt.
           src = base @ CHR ''.'' # originalExt \<and> CHR ''.'' \<notin> set originalExt \<and>
           makeResizedImageUrl src w h dens ext =
             base
             @ (case (w, h) of
                  (Some wv, Some hv) \<Rightarrow>
                    if wv \<noteq> 0 \<and> hv \<noteq> 0 then ''__'' @ toString wv @ ''x'' @ toString hv else []
                | _ \<Rightarrow> [])
             @ (case ext of
                  Some e \<Rightarrow> if e \<noteq> [] then CHR ''.'' # e else CHR ''.'' # originalExt
                | None \<Rightarrow> CHR ''.'' # originalExt)
             @ (case dens of
                  Some d \<Rightarrow> if d \<noteq> 0 then '' '' @ toString d @ ''x'' else []
                | None \<Rightarrow> [])"
proof -
  from assms obtain base originalExt
    where split: "src = base @ CHR ''.'' # originalExt" "CHR ''.'' \<notin> set originalExt"
    using split_list_last by fastforce
  from makeResizedImageUrl_split [OF split] split show ?thesis by blast
qed

text \<open>C5, witness: the source \<open>/a/b.png\<close> with \<open>100x100\<close>, \<open>avif\<close> and density 2.\<close>

theorem makeResizedImageUrl_parts_witness:
  "CHR ''.'' \<in> set ''/a/b.png'' \<and>
   (\<exists>base originalExt.
      ''/a/b.png'' = base @ CHR ''.'' # originalExt \<and> CHR ''.'' \<notin> set originalExt \<and>
      makeResizedImageUrl ''/a/b.png'' (Some 100) (Some 100) (Some 2) (Some ''avif'') =
        base @ ''__'' @ toString 100 @ ''x'' @ toString 100 @ ''.avif'' @ '' '' @ toString 2 @ ''x'')"
proof -
  have dot: "CHR ''.'' \<in> set ''/a/b.png''" by simp
  from makeResizedImageUrl_parts [OF dot, of "Some 100" "Some 100" "Some 2" "Some ''avif''"]
  show ?thesis using dot by simp
qed

text \<open>
  C5, counterexample to the claim as stated: an \<open>ext\<close> that is provided but empty does not
  give the extension \<open>.\<close>, and a \<open>dens\<close> that is provided but 0 gives no density suffix.
\<close>

theorem makeResizedImageUrl_provided_counterexample:
  "makeResizedImageUrl ''/a/b.png'' (Some 50) (Some 50) None (Some []) = ''/a/b__50x50.png'' \<and>
   buildResizedUrl ''/a/b.png'' (Some 50) (Some 50) (Some []) None = ''/a/b__50x50.'' \<and>
   makeResizedImageUrl ''/a/b.png'' (Some 50) (Some 50) None (Some [])
     \<noteq> buildResizedUrl ''/a/b.png'' (Some 50) (Some 50) (Some []) None \<and>
   makeResizedImageUrl ''/a/b.png'' (Some 50) (Some 50) (Some 0) None = ''/a/b__50x50.png'' \<and>
   buildResizedUrl ''/a/b.png'' (Some 50) (Some 50) None (Some 0) = ''/a/b__50x50.png 0x'' \<and>
   makeResizedImageUrl ''/a/b.png'' (Some 50) (Some 50) (Some 0) None
     \<noteq> buildResizedUrl ''/a/b.png'' (Some 50) (Some 50) None (Some 0)"
  by code_simp

text \<open>
  C8. \<open>makeResizedSrcSet\<close> maps every variant through \<open>makeResizedImageUrl\<close> with the
  variant's \<open>w\<close>, \<open>h\<close>, \<open>dens\<close> and \<open>ext\<close> and joins the results with \<open>", "\<close>; no variants
  give the empty string, and the specification's example evaluates as it says.
\<close>

theorem makeResizedSrcSet_joined:
  "makeResizedSrcSet src variants =
     joined (map (\<lambda>v. makeResizedImageUrl src (size_w v) (size_h v) (size_dens v) (size_ext v))
               variants) \<and>
   makeResizedSrcSet src [] = [] \<and>
   makeResizedSrcSet ''/a/b.png''
     [\<lparr>size_w = Some 50, size_h = Some 50, size_dens = None, size_ext = None\<rparr>,
      \<lparr>size_w = Some 100, size_h = Some 100, size_dens = None, size_ext = Some ''avif''\<rparr>] =
     ''/a/b__50x50.png, /a/b__100x100.avif''"
proof -
  have general: "makeResizedSrcSet src variants =
     joined (map (\<lambda>v. makeResizedImageUrl src (size_w v) (size_h v) (size_dens v) (size_ext v))
               variants)"
    by (simp add: makeResizedSrcSet_def js_join_joined)
  have empty: "makeResizedSrcSet src [] = []"
    by (simp add: makeResizedSrcSet_def js_join_def)
  have example: "makeResizedSrcSet ''/a/b.png''
     [\<lparr>size_w = Some 50, size_h = Some 50, size_dens = None, size_ext = None\<rparr>,
      \<lparr>size_w = Some 100, size_h = Some 100, size_dens = None, size_ext = Some ''avif''\<rparr>] =
     ''/a/b__50x50.png, /a/b__100x100.avif''"
    by code_simp
  from general empty example show ?thesis by (intro conjI)
qed

text \<open>
  C9. On a source without a dot the base is not the whole source: \<open>lastIndexOf\<close> answers
  \<open>-1\<close>, \<open>slice(0, -1)\<close> drops the last character and \<open>slice(-1)\<close> puts it back after the
  size tag, so the result does not start with the source.
\<close>

theorem makeResizedImageUrl_without_dot:
  "makeResizedImageUrl ''/img/photo'' (Some 100) (Some 50) None None = ''/img/phot__100x50o'' \<and>
   take (length ''/img/photo'') (makeResizedImageUrl ''/img/photo'' (Some 100) (Some 50) None None)
     \<noteq> ''/img/photo''"
  by code_simp

section \<open>The candidate list\<close>

lemma fallbackUrls_list:
  "fallbackUrls p =
     keep_first (makeResizedImageUrl (srcWithExt p) (Some (prop_w p)) (Some (prop_h p)) None None
                 # map (sizeUrl p) (prop_sizes p) @ [srcWithExt p])"
  by (simp add: fallbackUrls_def Let_def new_Set_keep_first foldl_push)

lemma fallbackUrls_hd:
  "fallbackUrls p =
     makeResizedImageUrl (srcWithExt p) (Some (prop_w p)) (Some (prop_h p)) None None
     # tl (fallbackUrls p)"
  by (simp add: fallbackUrls_list)

lemma fallbackUrls_nonempty: "fallbackUrls p \<noteq> []"
  using fallbackUrls_hd [of p] by (metis list.distinct(1))

lemma initializeImage_currentSrc: "currentSrc (initializeImage p s) = fallbackUrls p ! 0"
  by (cases "fallbackUrls p") (simp_all add: initializeImage_def fallbackUrls_nonempty)






text \<open>
  C10. The candidate list is never empty, also for an empty source: its first element is the
  primary resized URL, and \<open>initializeImage\<close> sets \<open>currentSrc\<close> to that element.
\<close>

theorem fallbackUrls_nonempty_init:
  "1 \<le> length (fallbackUrls p) \<and>
   fallbackUrls p ! 0 = makeResizedImageUrl (srcWithExt p) (Some (prop_w p)) (Some (prop_h p)) None None \<and>
   currentSrc (initializeImage p s) = fallbackUrls p ! 0 \<and>
   1 \<le> length (fallbackUrls (p\<lparr>prop_src := []\<rparr>))"
proof -
  have len: "1 \<le> length (fallbackUrls q)" for q
    using fallbackUrls_nonempty [of q] by (cases "fallbackUrls q") simp_all
  have first: "fallbackUrls p ! 0 = makeResizedImageUrl (srcWithExt p) (Some (prop_w p)) (Some (prop_h p)) None None"
    by (simp add: fallbackUrls_list)
  from len [of p] len [of "p\<lparr>prop_src := []\<rparr>"] first initializeImage_currentSrc [of p s]
  show ?thesis by (intro conjI)
qed

lemma fallbackUrls_cong:
  assumes "watched p = watched q" "prop_sizes p = prop_sizes q"
  shows "fallbackUrls p = fallbackUrls q"
proof -
  from assms(1) have eq: "prop_src p = prop_src q" "prop_ext p = prop_ext q"
    "prop_w p = prop_w q" "prop_h p = prop_h q"
    by (simp_all add: watched_def)
  have "srcWithExt p = srcWithExt q" unfolding srcWithExt_def eq by (rule refl)
  moreover have "sizeUrl p = sizeUrl q" unfolding sizeUrl_def eq by (rule refl)
  ultimately show ?thesis by (simp add: fallbackUrls_list eq assms(2))
qed

section \<open>The failure handler\<close>

lemma handleError_outcome: "handleError p s = outcome p s"
proof (induction p s rule: handleError.induct)
  case (1 p s)
  let ?urls = "fallbackUrls p"
  let ?i = "currentIndex s"
  let ?c = "(urlCache s)(currentSrc s \<mapsto> False)"
  let ?s1 = "s\<lparr>urlCache := ?c, console := console s @ [Warn (currentSrc s)],
               currentIndex := ?i + 1\<rparr>"
  show ?case
  proof (cases "length ?urls \<le> ?i + 1")
    case True
    then show ?thesis
      by (simp add: handleError.simps [of p s] outcome_def Let_def)
  next
    case False
    then have lt: "?i + 1 < length ?urls" by simp
    then have rest: "drop (?i + 1) ?urls = ?urls ! (?i + 1) # drop (?i + 2) ?urls"
      by (simp add: Cons_nth_drop_Suc)
    show ?thesis
    proof (cases "known_bad ?c (?urls ! (?i + 1))")
      case True
      have "handleError p s = handleError p ?s1"
        using lt True
        by (subst handleError.simps) (simp add: Let_def)
      also have "\<dots> = outcome p ?s1"
        using 1 [of "currentSrc s" "s\<lparr>urlCache := ?c\<rparr>"
                    "s\<lparr>urlCache := ?c, console := console s @ [Warn (currentSrc s)]\<rparr>"
                    ?s1 "?urls ! (?i + 1)"] lt True
        by simp
      also have "\<dots> = outcome p s"
      proof (cases "dropWhile (known_bad ?c) (drop (?i + 2) ?urls)")
        case Nil
        with True rest show ?thesis
          by (simp add: outcome_def Let_def replicate_append_same del: dropWhile_eq_Nil_conv)
      next
        case (Cons u us)
        with True rest show ?thesis
          by (simp add: outcome_def Let_def replicate_append_same del: dropWhile_eq_Nil_conv)
      qed
      finally show ?thesis .
    next
      case False
      then show ?thesis
        using lt rest
        by (subst handleError.simps) (simp add: Let_def outcome_def)
    qed
  qed
qed

text \<open>Where the scan over the following candidates stops.\<close>

lemma dropWhile_Cons_nth:
  assumes "dropWhile P xs = u # us"
  shows "length (takeWhile P xs) < length xs" and "xs ! length (takeWhile P xs) = u"
    and "\<not> P u"
proof -
  have xs: "xs = takeWhile P xs @ u # us"
    using assms takeWhile_dropWhile_id [of P xs] by simp
  then have "length xs = length (takeWhile P xs) + Suc (length us)"
    by (metis length_append length_Cons)
  then show "length (takeWhile P xs) < length xs" by simp
  show "xs ! length (takeWhile P xs) = u"
    by (subst xs) (simp only: nth_append_length)
  show "\<not> P u"
    using assms by (metis hd_dropWhile list.sel(1) list.distinct(1))
qed

lemma dropWhile_Nil_length: "dropWhile P xs = [] \<Longrightarrow> length (takeWhile P xs) = length xs"
  by (metis takeWhile_dropWhile_id append_Nil2)

text \<open>The two ways a call can end.\<close>

lemma handleError_exhausted:
  assumes "dropWhile (known_bad ((urlCache s)(currentSrc s \<mapsto> False)))
             (drop (currentIndex s + 1) (fallbackUrls p)) = []"
  shows "handleError p s =
           s\<lparr>urlCache := (urlCache s)(currentSrc s \<mapsto> False),
             currentIndex := max (currentIndex s + 1) (length (fallbackUrls p)),
             console := console s
               @ replicate (max (currentIndex s + 1) (length (fallbackUrls p)) - currentIndex s)
                   (Warn (currentSrc s))
               @ [Error (fallbackUrls p)]\<rparr>"
proof -
  have k: "length (takeWhile (known_bad ((urlCache s)(currentSrc s \<mapsto> False)))
             (drop (currentIndex s + 1) (fallbackUrls p)))
           = length (fallbackUrls p) - (currentIndex s + 1)"
    using dropWhile_Nil_length [OF assms] by simp
  show ?thesis
  proof (cases "currentIndex s + 1 \<le> length (fallbackUrls p)")
    case True
    then have "length (fallbackUrls p) - currentIndex s
                 = Suc (length (fallbackUrls p) - (currentIndex s + 1))"
      by arith
    with True show ?thesis
      unfolding handleError_outcome outcome_def Let_def assms k
      by (simp add: max_def)
  next
    case False
    then show ?thesis
      unfolding handleError_outcome outcome_def Let_def assms k
      by (simp add: max_def)
  qed
qed

lemma handleError_next:
  assumes "dropWhile (known_bad ((urlCache s)(currentSrc s \<mapsto> False)))
             (drop (currentIndex s + 1) (fallbackUrls p)) = u # us"
  defines "k \<equiv> length (takeWhile (known_bad ((urlCache s)(currentSrc s \<mapsto> False)))
             (drop (currentIndex s + 1) (fallbackUrls p)))"
  shows "handleError p s =
           s\<lparr>urlCache := (urlCache s)(currentSrc s \<mapsto> False),
             currentIndex := currentIndex s + 1 + k,
             currentSrc := u, imageKey := imageKey s + 1,
             console := console s @ replicate (k + 1) (Warn (currentSrc s)) @ [Info u]\<rparr>"
    and "currentIndex s + 1 + k < length (fallbackUrls p)"
    and "fallbackUrls p ! (currentIndex s + 1 + k) = u"
    and "\<not> known_bad ((urlCache s)(currentSrc s \<mapsto> False)) u"
proof -
  show "handleError p s =
           s\<lparr>urlCache := (urlCache s)(currentSrc s \<mapsto> False),
             currentIndex := currentIndex s + 1 + k,
             currentSrc := u, imageKey := imageKey s + 1,
             console := console s @ replicate (k + 1) (Warn (currentSrc s)) @ [Info u]\<rparr>"
    unfolding handleError_outcome outcome_def Let_def assms(1) k_def by simp
  from dropWhile_Cons_nth(1) [OF assms(1)]
  show lt: "currentIndex s + 1 + k < length (fallbackUrls p)"
    unfolding k_def by simp
  from dropWhile_Cons_nth(2) [OF assms(1)] lt
  show "fallbackUrls p ! (currentIndex s + 1 + k) = u"
    unfolding k_def by (simp add: add.commute)
  from dropWhile_Cons_nth(3) [OF assms(1)]
  show "\<not> known_bad ((urlCache s)(currentSrc s \<mapsto> False)) u" .
qed




lemma handleError_cursor:
  assumes "currentIndex s < length (fallbackUrls p)"
  shows "currentIndex (handleError p s) \<le> length (fallbackUrls p)"
    and "currentIndex (handleError p s) < length (fallbackUrls p) \<Longrightarrow>
           currentSrc (handleError p s) = fallbackUrls p ! currentIndex (handleError p s)"
proof -
  let ?ws = "dropWhile (known_bad ((urlCache s)(currentSrc s \<mapsto> False)))
               (drop (currentIndex s + 1) (fallbackUrls p))"
  have "currentIndex (handleError p s) \<le> length (fallbackUrls p) \<and>
        (currentIndex (handleError p s) < length (fallbackUrls p) \<longrightarrow>
           currentSrc (handleError p s) = fallbackUrls p ! currentIndex (handleError p s))"
  proof (cases ?ws)
    case Nil
    from handleError_exhausted [OF Nil] assms show ?thesis
      by (simp add: max_def)
  next
    case (Cons u us)
    from handleError_next [OF Cons] show ?thesis
      by simp
  qed
  then show "currentIndex (handleError p s) \<le> length (fallbackUrls p)"
    and "currentIndex (handleError p s) < length (fallbackUrls p) \<Longrightarrow>
           currentSrc (handleError p s) = fallbackUrls p ! currentIndex (handleError p s)"
    by blast+
qed

lemma run_invariant:
  assumes "well_driven (p, s) evs"
    and "currentIndex s \<le> length (fallbackUrls p)"
    and "currentIndex s < length (fallbackUrls p) \<longrightarrow> currentSrc s = fallbackUrls p ! currentIndex s"
    and "foldl step (p, s) evs = (p', s')"
  shows "currentIndex s' \<le> length (fallbackUrls p') \<and>
         (currentIndex s' < length (fallbackUrls p') \<longrightarrow>
            currentSrc s' = fallbackUrls p' ! currentIndex s')"
  using assms
proof (induction evs arbitrary: p s)
  case Nil
  then show ?case by simp
next
  case (Cons ev evs)
  show ?case
  proof (cases ev)
    case (PropsChange q)
    have rest: "well_driven (q, update_props p q s) evs"
      and fold: "foldl step (q, update_props p q s) evs = (p', s')"
      and kept: "watched q \<noteq> watched p \<or> fallbackUrls q = fallbackUrls p"
      using Cons.prems(1,4) PropsChange by simp_all
    show ?thesis
    proof (cases "watched q \<noteq> watched p")
      case True
      then have upd: "update_props p q s = initializeImage q s"
        by (simp add: update_props_def)
      have "currentIndex (initializeImage q s) \<le> length (fallbackUrls q)"
        by (simp add: initializeImage_def)
      moreover have "currentSrc (initializeImage q s)
                       = fallbackUrls q ! currentIndex (initializeImage q s)"
        using initializeImage_currentSrc [of q s] by (simp add: initializeImage_def)
      ultimately show ?thesis
        using Cons.IH [of q "initializeImage q s"] rest fold unfolding upd by blast
    next
      case False
      then have upd: "update_props p q s = s"
        by (simp add: update_props_def)
      from False kept have same: "fallbackUrls q = fallbackUrls p"
        by blast
      show ?thesis
        using Cons.IH [of q s] rest fold Cons.prems(2,3) unfolding upd same by blast
    qed
  next
    case LoadFailure
    have lt: "currentIndex s < length (fallbackUrls p)"
      and "well_driven (p, handleError p s) evs"
      and "foldl step (p, handleError p s) evs = (p', s')"
      using Cons.prems(1,4) LoadFailure by simp_all
    with handleError_cursor [OF lt] show ?thesis
      using Cons.IH [of p "handleError p s"] by blast
  qed
qed

text \<open>The controller for the request with one size variant, step by step.\<close>

lemma fallbackUrls_photo_avif:
  "fallbackUrls photo_avif =
     [''/img/photo__100x50.webp'', ''/img/photo__10x50.avif'', ''/img/photo.webp'']"
  by code_simp

lemma mounted_photo_avif:
  "mounted photo_avif =
     \<lparr>currentIndex = 0, imageKey = 1, currentSrc = ''/img/photo__100x50.webp'',
      urlCache = Map.empty, console = []\<rparr>"
  by (simp add: mounted_def initializeImage_def fresh_state_def fallbackUrls_photo_avif)

lemma first_failure_photo_avif:
  "handleError photo_avif (mounted photo_avif) =
     \<lparr>currentIndex = 1, imageKey = 2, currentSrc = ''/img/photo__10x50.avif'',
      urlCache = [''/img/photo__100x50.webp'' \<mapsto> False],
      console = [Warn ''/img/photo__100x50.webp'', Info ''/img/photo__10x50.avif'']\<rparr>"
  unfolding mounted_photo_avif
  by (subst handleError.simps) (simp add: fallbackUrls_photo_avif Let_def known_bad_def)

lemma second_failure_photo_avif:
  "handleError photo_avif (handleError photo_avif (mounted photo_avif)) =
     \<lparr>currentIndex = 2, imageKey = 3, currentSrc = ''/img/photo.webp'',
      urlCache = [''/img/photo__100x50.webp'' \<mapsto> False, ''/img/photo__10x50.avif'' \<mapsto> False],
      console = [Warn ''/img/photo__100x50.webp'', Info ''/img/photo__10x50.avif'',
                 Warn ''/img/photo__10x50.avif'', Info ''/img/photo.webp'']\<rparr>"
  unfolding first_failure_photo_avif
  by (subst handleError.simps) (simp add: fallbackUrls_photo_avif Let_def known_bad_def)

lemma third_failure_photo_avif:
  "handleError photo_avif (handleError photo_avif (handleError photo_avif (mounted photo_avif))) =
     \<lparr>currentIndex = 3, imageKey = 3, currentSrc = ''/img/photo.webp'',
      urlCache = [''/img/photo__100x50.webp'' \<mapsto> False, ''/img/photo__10x50.avif'' \<mapsto> False,
                  ''/img/photo.webp'' \<mapsto> False],
      console = [Warn ''/img/photo__100x50.webp'', Info ''/img/photo__10x50.avif'',
                 Warn ''/img/photo__10x50.avif'', Info ''/img/photo.webp'',
                 Warn ''/img/photo.webp'',
                 Error [''/img/photo__100x50.webp'', ''/img/photo__10x50.avif'',
                        ''/img/photo.webp'']]\<rparr>"
  unfolding second_failure_photo_avif
  by (subst handleError.simps) (simp add: fallbackUrls_photo_avif Let_def known_bad_def)

lemma fallbackUrls_photo: "fallbackUrls photo = [''/img/photo__100x50.webp'', ''/img/photo.webp'']"
  by code_simp

lemma revisited_state:
  "revisited =
     \<lparr>currentIndex = 0, imageKey = 4, currentSrc = ''/img/photo__100x50.webp'',
      urlCache = [''/img/photo__100x50.webp'' \<mapsto> False, ''/img/photo__10x50.avif'' \<mapsto> False],
      console = [Warn ''/img/photo__100x50.webp'', Info ''/img/photo__10x50.avif'',
                 Warn ''/img/photo__10x50.avif'', Info ''/img/photo.webp'']\<rparr>"
  unfolding revisited_def second_failure_photo_avif
  by (simp add: initializeImage_def fallbackUrls_photo_avif)

section \<open>Exhaustion\<close>

text \<open>
  C7. The call that takes the controller from the last candidate into the all-failed state
  moves the cursor to the length of the list, writes one warning and one error, and leaves
  \<open>currentSrc\<close> (the last candidate) and \<open>imageKey\<close> as they were.
\<close>

theorem handleError_exhaustion_frame:
  assumes "currentIndex s + 1 = length (fallbackUrls p)"
    and "currentSrc s = fallbackUrls p ! currentIndex s"
  shows "currentIndex (handleError p s) = length (fallbackUrls p) \<and>
         currentSrc (handleError p s) = currentSrc s \<and>
         currentSrc (handleError p s) = last (fallbackUrls p) \<and>
         imageKey (handleError p s) = imageKey s \<and>
         emitted s (handleError p s) = [Warn (currentSrc s), Error (fallbackUrls p)]"
proof -
  have "dropWhile (known_bad ((urlCache s)(currentSrc s \<mapsto> False)))
          (drop (currentIndex s + 1) (fallbackUrls p)) = []"
    using assms(1) by simp
  note ended = handleError_exhausted [OF this]
  have one: "length (fallbackUrls p) - currentIndex s = 1"
    using assms(1) by arith
  have last: "currentSrc s = last (fallbackUrls p)"
    using assms by (simp add: last_conv_nth fallbackUrls_nonempty flip: assms(1))
  show ?thesis
    by (subst (1 2 3 4 5) ended) (use assms(1) one last in \<open>simp add: emitted_def max_def\<close>)
qed

text \<open>C7, witness: the photo request after its first failure stands on its last candidate.\<close>

theorem handleError_exhaustion_frame_witness:
  "currentIndex (handleError photo (mounted photo)) + 1 = length (fallbackUrls photo) \<and>
   currentSrc (handleError photo (mounted photo))
     = fallbackUrls photo ! currentIndex (handleError photo (mounted photo)) \<and>
   currentSrc (handleError photo (handleError photo (mounted photo))) = ''/img/photo.webp'' \<and>
   imageKey (handleError photo (handleError photo (mounted photo))) = 2 \<and>
   currentIndex (handleError photo (handleError photo (mounted photo))) = 2"
proof -
  have h1: "currentIndex (handleError photo (mounted photo)) + 1 = length (fallbackUrls photo)"
    by code_simp
  have h2: "currentSrc (handleError photo (mounted photo))
     = fallbackUrls photo ! currentIndex (handleError photo (mounted photo))"
    by code_simp
  have v: "currentSrc (handleError photo (mounted photo)) = ''/img/photo.webp''"
    "imageKey (handleError photo (mounted photo)) = 2" "length (fallbackUrls photo) = 2"
    by code_simp+
  from handleError_exhaustion_frame [OF h1 h2] h1 h2 v show ?thesis
    by simp
qed




section \<open>Skipping known-bad candidates\<close>

text \<open>
  C4. When the candidate after the cursor is known bad, \<open>handleError\<close> passes over it and over
  the known-bad candidates that follow it (known bad in the cache as it stands once the
  current failure is recorded): no \<open>Info\<close> signal is written for any of them, and the call
  either stops at the first following candidate that is not known bad, which becomes
  \<open>currentSrc\<close> with \<open>imageKey\<close> raised once, or runs off the end of the list with
  \<open>currentSrc\<close> and \<open>imageKey\<close> untouched and an error signal.
\<close>

theorem handleError_skips_known_bad:
  assumes "currentIndex s + 1 < length (fallbackUrls p)"
    and "urlCache s (fallbackUrls p ! (currentIndex s + 1)) = Some False"
  defines "cache \<equiv> (urlCache s)(currentSrc s \<mapsto> False)"
  defines "following \<equiv> drop (currentIndex s + 2) (fallbackUrls p)"
  defines "skipped \<equiv> fallbackUrls p ! (currentIndex s + 1) # takeWhile (known_bad cache) following"
  shows "(\<forall>u \<in> set skipped. Info u \<notin> set (emitted s (handleError p s))) \<and>
         (case dropWhile (known_bad cache) following of
            [] \<Rightarrow>
              handleError p s =
                s\<lparr>urlCache := cache, currentIndex := length (fallbackUrls p),
                  console := console s @ replicate (length skipped + 1) (Warn (currentSrc s))
                                       @ [Error (fallbackUrls p)]\<rparr>
          | u # _ \<Rightarrow>
              u \<notin> set skipped \<and> \<not> known_bad cache u \<and>
              fallbackUrls p ! (currentIndex s + 1 + length skipped) = u \<and>
              handleError p s =
                s\<lparr>urlCache := cache, currentIndex := currentIndex s + 1 + length skipped,
                  currentSrc := u, imageKey := imageKey s + 1,
                  console := console s @ replicate (length skipped + 1) (Warn (currentSrc s))
                                       @ [Info u]\<rparr>)"
proof -
  let ?next = "fallbackUrls p ! (currentIndex s + 1)"
  have bad: "known_bad cache ?next"
    using assms(2) by (simp add: known_bad_def cache_def)
  have rest: "drop (currentIndex s + 1) (fallbackUrls p) = ?next # following"
    using assms(1) by (simp add: following_def Cons_nth_drop_Suc)
  have tw: "takeWhile (known_bad cache) (drop (currentIndex s + 1) (fallbackUrls p)) = skipped"
    and dw: "dropWhile (known_bad cache) (drop (currentIndex s + 1) (fallbackUrls p))
               = dropWhile (known_bad cache) following"
    unfolding rest skipped_def using bad by simp_all
  have all_bad: "known_bad cache u" if "u \<in> set skipped" for u
    using that bad by (auto simp: skipped_def dest: set_takeWhileD)
  show ?thesis
  proof (cases "dropWhile (known_bad cache) following")
    case Nil
    then have ws: "dropWhile (known_bad ((urlCache s)(currentSrc s \<mapsto> False)))
                     (drop (currentIndex s + 1) (fallbackUrls p)) = []"
      using dw by (simp add: cache_def)
    have len: "length (fallbackUrls p) - currentIndex s = Suc (length skipped)"
      using dropWhile_Nil_length [OF ws] assms(1) tw
      by (simp add: cache_def)
    from handleError_exhausted [OF ws] assms(1)
    have eq: "handleError p s =
                s\<lparr>urlCache := cache, currentIndex := length (fallbackUrls p),
                  console := console s @ replicate (length skipped + 1) (Warn (currentSrc s))
                                       @ [Error (fallbackUrls p)]\<rparr>"
      by (simp add: max_def cache_def len)
    have "\<forall>u \<in> set skipped. Info u \<notin> set (emitted s (handleError p s))"
      by (subst eq) (simp add: emitted_def)
    with eq show ?thesis unfolding Nil list.case by blast
  next
    case (Cons u us)
    then have ws: "dropWhile (known_bad ((urlCache s)(currentSrc s \<mapsto> False)))
                     (drop (currentIndex s + 1) (fallbackUrls p)) = u # us"
      using dw by (simp add: cache_def)
    note nxt = handleError_next [OF ws]
    have k: "length (takeWhile (known_bad ((urlCache s)(currentSrc s \<mapsto> False)))
               (drop (currentIndex s + 1) (fallbackUrls p))) = length skipped"
      using tw by (simp add: cache_def)
    have eq: "handleError p s =
                s\<lparr>urlCache := cache, currentIndex := currentIndex s + 1 + length skipped,
                  currentSrc := u, imageKey := imageKey s + 1,
                  console := console s @ replicate (length skipped + 1) (Warn (currentSrc s))
                                       @ [Info u]\<rparr>"
      using nxt(1) unfolding k by (simp add: cache_def)
    have good: "\<not> known_bad cache u"
      using nxt(4) by (simp add: cache_def)
    then have fresh: "u \<notin> set skipped"
      using all_bad by blast
    have at: "fallbackUrls p ! (currentIndex s + 1 + length skipped) = u"
      using nxt(3) unfolding k .
    have "\<forall>v \<in> set skipped. Info v \<notin> set (emitted s (handleError p s))"
      using fresh by (subst eq) (auto simp: emitted_def)
    with eq good fresh at show ?thesis unfolding Cons list.case by blast
  qed
qed

text \<open>
  C4, witness: after two failures and a re-initialisation the second candidate is known bad;
  the next failure passes over it and lands on the third.
\<close>

theorem handleError_skips_known_bad_witness:
  "currentIndex revisited + 1 < length (fallbackUrls photo_avif) \<and>
   urlCache revisited (fallbackUrls photo_avif ! (currentIndex revisited + 1)) = Some False \<and>
   Info ''/img/photo__10x50.avif'' \<notin> set (emitted revisited (handleError photo_avif revisited)) \<and>
   currentSrc (handleError photo_avif revisited) = ''/img/photo.webp'' \<and>
   currentIndex (handleError photo_avif revisited) = 2 \<and>
   imageKey (handleError photo_avif revisited) = imageKey revisited + 1"
proof -
  have h1: "currentIndex revisited + 1 < length (fallbackUrls photo_avif)"
    by (simp add: revisited_state fallbackUrls_photo_avif)
  have h2: "urlCache revisited (fallbackUrls photo_avif ! (currentIndex revisited + 1)) = Some False"
    by (simp add: revisited_state fallbackUrls_photo_avif)
  from handleError_skips_known_bad [OF h1 h2] h1 h2 show ?thesis
    by (auto simp add: revisited_state fallbackUrls_photo_avif known_bad_def)
qed

section \<open>The cursor invariant\<close>

text \<open>
  C2, as amended. After any sequence of prop changes and \<open>onLoadFailure\<close> calls in which no
  failure is reported while the cursor is already at or past the end of the list, and in which
  no change of props alters the candidate list without altering a watched prop (that is,
  without an \<open>initialize\<close>), \<open>currentIndex\<close> is at most the length of the candidate list, and
  while it is below the length \<open>currentSrc\<close> is the candidate at the cursor.
\<close>

theorem currentIndex_bounded:
  assumes "well_driven (p0, mounted p0) evs"
    and "run p0 evs = (p, s)"
  shows "currentIndex s \<le> length (fallbackUrls p) \<and>
         (currentIndex s < length (fallbackUrls p) \<longrightarrow>
            currentSrc s = fallbackUrls p ! currentIndex s)"
proof (rule run_invariant [OF assms(1)])
  show "currentIndex (mounted p0) \<le> length (fallbackUrls p0)"
    by (simp add: mounted_def initializeImage_def)
  show "currentIndex (mounted p0) < length (fallbackUrls p0) \<longrightarrow>
          currentSrc (mounted p0) = fallbackUrls p0 ! currentIndex (mounted p0)"
    using initializeImage_currentSrc [of p0 fresh_state]
    by (simp add: mounted_def) (simp add: initializeImage_def)
  show "foldl step (p0, mounted p0) evs = (p, s)"
    using assms(2) by (simp add: run_def)
qed

text \<open>
  C2, witness: the photo request fails once, its \<open>alt\<close> changes (no watched prop, same
  candidate list), its \<open>w\<close> changes (the watcher re-initialises), and it fails again.
\<close>

theorem currentIndex_bounded_witness:
  "well_driven (photo, mounted photo)
     [LoadFailure, PropsChange (photo\<lparr>prop_alt := ''a photo''\<rparr>),
      PropsChange (photo\<lparr>prop_alt := ''a photo'', prop_w := 200\<rparr>), LoadFailure] \<and>
   currentIndex (snd (run photo
     [LoadFailure, PropsChange (photo\<lparr>prop_alt := ''a photo''\<rparr>),
      PropsChange (photo\<lparr>prop_alt := ''a photo'', prop_w := 200\<rparr>), LoadFailure]))
     \<le> length (fallbackUrls (fst (run photo
     [LoadFailure, PropsChange (photo\<lparr>prop_alt := ''a photo''\<rparr>),
      PropsChange (photo\<lparr>prop_alt := ''a photo'', prop_w := 200\<rparr>), LoadFailure])))"
proof -
  let ?evs = "[LoadFailure, PropsChange (photo\<lparr>prop_alt := ''a photo''\<rparr>),
               PropsChange (photo\<lparr>prop_alt := ''a photo'', prop_w := 200\<rparr>), LoadFailure]"
  have alt: "watched (photo\<lparr>prop_alt := ''a photo''\<rparr>) = watched photo"
    by (simp add: watched_def)
  have list: "fallbackUrls (photo\<lparr>prop_alt := ''a photo''\<rparr>) = fallbackUrls photo"
    by (rule fallbackUrls_cong) (simp_all add: watched_def)
  have w: "watched (photo\<lparr>prop_alt := ''a photo'', prop_w := 200\<rparr>)
             \<noteq> watched (photo\<lparr>prop_alt := ''a photo''\<rparr>)"
    by (simp add: watched_def photo_def)
  have first: "currentIndex (mounted photo) < length (fallbackUrls photo)"
    by (simp add: mounted_def initializeImage_def fallbackUrls_photo)
  have again: "currentIndex (initializeImage (photo\<lparr>prop_alt := ''a photo'', prop_w := 200\<rparr>)
                               (handleError photo (mounted photo)))
                 < length (fallbackUrls (photo\<lparr>prop_alt := ''a photo'', prop_w := 200\<rparr>))"
    using fallbackUrls_nonempty [of "photo\<lparr>prop_alt := ''a photo'', prop_w := 200\<rparr>"]
    by (simp add: initializeImage_def)
  have h: "well_driven (photo, mounted photo) ?evs"
    using alt list w first again by (simp add: update_props_def)
  from currentIndex_bounded [OF h, of "fst (run photo ?evs)" "snd (run photo ?evs)"]
  show ?thesis using h by simp
qed

text \<open>
  C2, counterexample to the claim as stated. Three failures of the photo request, which has
  two candidates, leave the cursor at 3. And without any failure reported in the terminal
  state: the request with one size variant has three candidates, its third failure (reported
  with the cursor at 2) ends with the cursor at 3, and when the parent then empties \<open>sizes\<close>
  no watched prop has changed, \<open>initializeImage\<close> does not run, and the cursor 3 stands
  against a candidate list of length 2.
\<close>

theorem currentIndex_bounded_counterexample:
  "currentIndex (snd (run photo [LoadFailure, LoadFailure, LoadFailure])) = 3 \<and>
   length (fallbackUrls (fst (run photo [LoadFailure, LoadFailure, LoadFailure]))) = 2 \<and>
   \<not> currentIndex (snd (run photo [LoadFailure, LoadFailure, LoadFailure]))
       \<le> length (fallbackUrls (fst (run photo [LoadFailure, LoadFailure, LoadFailure]))) \<and>
   currentIndex (snd (run photo_avif [LoadFailure, LoadFailure]))
     < length (fallbackUrls (fst (run photo_avif [LoadFailure, LoadFailure]))) \<and>
   watched photo = watched photo_avif \<and>
   currentIndex (snd (run photo_avif [LoadFailure, LoadFailure, LoadFailure, PropsChange photo])) = 3 \<and>
   length (fallbackUrls
             (fst (run photo_avif [LoadFailure, LoadFailure, LoadFailure, PropsChange photo]))) = 2"
proof -
  have three: "currentIndex (snd (run photo [LoadFailure, LoadFailure, LoadFailure])) = 3 \<and>
   length (fallbackUrls (fst (run photo [LoadFailure, LoadFailure, LoadFailure]))) = 2 \<and>
   \<not> currentIndex (snd (run photo [LoadFailure, LoadFailure, LoadFailure]))
       \<le> length (fallbackUrls (fst (run photo [LoadFailure, LoadFailure, LoadFailure])))"
    by code_simp
  have same: "watched photo = watched photo_avif"
    by (simp add: watched_def photo_avif_def)
  have two: "currentIndex (snd (run photo_avif [LoadFailure, LoadFailure]))
     < length (fallbackUrls (fst (run photo_avif [LoadFailure, LoadFailure])))"
    by (simp add: run_def second_failure_photo_avif fallbackUrls_photo_avif)
  have emptied: "currentIndex (snd (run photo_avif [LoadFailure, LoadFailure, LoadFailure, PropsChange photo])) = 3 \<and>
   length (fallbackUrls
             (fst (run photo_avif [LoadFailure, LoadFailure, LoadFailure, PropsChange photo]))) = 2"
    using same
    by (simp add: run_def update_props_def third_failure_photo_avif fallbackUrls_photo)
  from three two same emptied show ?thesis by blast
qed

section \<open>Initialisation\<close>

text \<open>
  C6. \<open>initializeImage\<close> sets the cursor to 0 and \<open>currentSrc\<close> to the first candidate
  whatever the state was, also after any number of failures, and it never touches
  \<open>urlCache\<close>; run twice it gives the state of one run, except that \<open>imageKey\<close> has been
  raised twice. The candidate list depends on \<open>src\<close>, \<open>ext\<close>, \<open>w\<close>, \<open>h\<close> and \<open>sizes\<close> only,
  so identical requests give identical lists, and a change of a watched prop re-initialises.
\<close>

theorem initializeImage_idempotent:
  "currentIndex (initializeImage p s) = 0 \<and>
   currentSrc (initializeImage p s) = fallbackUrls p ! 0 \<and>
   urlCache (initializeImage p s) = urlCache s \<and>
   initializeImage p (initializeImage p s) = (initializeImage p s)\<lparr>imageKey := imageKey s + 2\<rparr> \<and>
   currentIndex (initializeImage p ((handleError p ^^ n) (initializeImage p s))) = 0 \<and>
   currentSrc (initializeImage p ((handleError p ^^ n) (initializeImage p s)))
     = currentSrc (initializeImage p s) \<and>
   urlCache (initializeImage p ((handleError p ^^ n) (initializeImage p s)))
     = urlCache ((handleError p ^^ n) (initializeImage p s)) \<and>
   (watched q = watched p \<and> prop_sizes q = prop_sizes p \<longrightarrow> fallbackUrls q = fallbackUrls p) \<and>
   (watched new \<noteq> watched old \<longrightarrow>
      currentIndex (update_props old new s) = 0 \<and>
      currentSrc (update_props old new s) = fallbackUrls new ! 0 \<and>
      urlCache (update_props old new s) = urlCache s)"
proof -
  have idx: "currentIndex (initializeImage p t) = 0" for t
    by (simp add: initializeImage_def)
  have cache: "urlCache (initializeImage q t) = urlCache t" for q t
    by (simp add: initializeImage_def)
  have twice: "initializeImage p (initializeImage p s)
                 = (initializeImage p s)\<lparr>imageKey := imageKey s + 2\<rparr>"
    by (simp add: initializeImage_def)
  have src: "currentSrc (initializeImage p ((handleError p ^^ n) (initializeImage p s)))
     = currentSrc (initializeImage p s)"
    by (simp add: initializeImage_currentSrc)
  have cong: "watched q = watched p \<and> prop_sizes q = prop_sizes p \<longrightarrow> fallbackUrls q = fallbackUrls p"
    using fallbackUrls_cong by blast
  have upd: "watched new \<noteq> watched old \<longrightarrow>
      currentIndex (update_props old new s) = 0 \<and>
      currentSrc (update_props old new s) = fallbackUrls new ! 0 \<and>
      urlCache (update_props old new s) = urlCache s"
    by (simp add: update_props_def initializeImage_currentSrc cache) (simp add: initializeImage_def)
  from idx [of s] idx [of "(handleError p ^^ n) (initializeImage p s)"]
    initializeImage_currentSrc [of p s] cache [of p s]
    cache [of p "(handleError p ^^ n) (initializeImage p s)"] twice src cong upd
  show ?thesis by (intro conjI)
qed

text \<open>
  C6, witness: a change of \<open>alt\<close> alone keeps the candidate list, a change of \<open>w\<close> resets
  the cursor of an exhausted controller.
\<close>

theorem initializeImage_idempotent_witness:
  "watched (photo\<lparr>prop_alt := ''a photo''\<rparr>) = watched photo \<and>
   prop_sizes (photo\<lparr>prop_alt := ''a photo''\<rparr>) = prop_sizes photo \<and>
   fallbackUrls (photo\<lparr>prop_alt := ''a photo''\<rparr>) = fallbackUrls photo \<and>
   watched (photo\<lparr>prop_w := 200\<rparr>) \<noteq> watched photo \<and>
   currentIndex (update_props photo (photo\<lparr>prop_w := 200\<rparr>)
                   (handleError photo (handleError photo (mounted photo)))) = 0 \<and>
   urlCache (update_props photo (photo\<lparr>prop_w := 200\<rparr>)
               (handleError photo (handleError photo (mounted photo))))
     = urlCache (handleError photo (handleError photo (mounted photo))) \<and>
   currentIndex (initializeImage photo ((handleError photo ^^ 2) (initializeImage photo fresh_state))) = 0"
proof -
  have h1: "watched (photo\<lparr>prop_alt := ''a photo''\<rparr>) = watched photo \<and>
   prop_sizes (photo\<lparr>prop_alt := ''a photo''\<rparr>) = prop_sizes photo"
    by (simp add: watched_def)
  have h2: "watched (photo\<lparr>prop_w := 200\<rparr>) \<noteq> watched photo"
    by (simp add: watched_def photo_def)
  from initializeImage_idempotent
         [of photo fresh_state 2 "photo\<lparr>prop_alt := ''a photo''\<rparr>" "photo\<lparr>prop_w := 200\<rparr>" photo]
  have a: "fallbackUrls (photo\<lparr>prop_alt := ''a photo''\<rparr>) = fallbackUrls photo"
    and b: "currentIndex (initializeImage photo ((handleError photo ^^ 2) (initializeImage photo fresh_state))) = 0"
    using h1 by blast+
  from initializeImage_idempotent
         [of photo "handleError photo (handleError photo (mounted photo))" 0 photo
             "photo\<lparr>prop_w := 200\<rparr>" photo] h2
  have c: "currentIndex (update_props photo (photo\<lparr>prop_w := 200\<rparr>)
                   (handleError photo (handleError photo (mounted photo)))) = 0"
    and d: "urlCache (update_props photo (photo\<lparr>prop_w := 200\<rparr>)
               (handleError photo (handleError photo (mounted photo))))
     = urlCache (handleError photo (handleError photo (mounted photo)))"
    by blast+
  from h1 h2 a b c d show ?thesis by (intro conjI) blast+
qed

end
